theory Spec2Isabelle
  imports Main "HOL-Library.Char_ord" "HOL-Library.List_Lexorder" "HOL-Library.AList"
begin

section \<open>Sorted string tables: the writer and the reader of package sstable\<close>

text \<open>
  A shallow embedding of \<^verbatim>\<open>writer.go\<close> (the Go source printed in \<^verbatim>\<open>src/README.md\<close>
  from line 30 on) and of \<^verbatim>\<open>src/reader.go\<close>. Go strings are byte sequences and
  \<^verbatim>\<open>strings.Compare\<close> orders them bytewise; here a string is a \<^typ>\<open>char list\<close> under
  the lexicographic order of its bytes. Go's \<^verbatim>\<open>int\<close> and \<^verbatim>\<open>int64\<close> are \<^typ>\<open>int\<close>:
  offsets and counters stay far below \<open>2 ^ 63\<close> for any file that can exist, and no
  property below depends on wrap-around.
\<close>

subsection \<open>Strings and errors\<close>

definition strings_Compare :: "string \<Rightarrow> string \<Rightarrow> int" where
  "strings_Compare a b = (if a = b then 0 else if a < b then - 1 else 1)"

text \<open>
  The three error values of the package, \<^verbatim>\<open>io.EOF\<close>, and the failures of the
  collaborators (stream, record framing, protocol buffer runtime), which report errors of
  their own, told apart by a number. A run-time panic of Go (division by zero, slice bound
  out of range) ends the call; it is modelled as one more outcome.
\<close>

datatype error =
    Err_NotSeeker
  | Err_UnsupportedIndexType
  | Err_KeyOrderViolation
  | io_EOF
  | External nat
  | Runtime_panic

subsection \<open>Messages\<close>

text \<open>The two protocol buffer messages of the package (their generated code is not part of the sources).\<close>

record KeyValue =
  kv_Key :: string
  kv_Value :: string

record IndexRecord =
  ir_Key :: string
  ir_Offset :: int

subsection \<open>Collaborators: streams, record framing, message encoding\<close>

text \<open>
  The stream handed to a writer or reader (\<^verbatim>\<open>filesystem.WriteCloser\<close>,
  \<^verbatim>\<open>filesystem.ReadCloser\<close>, optionally a \<^verbatim>\<open>filesystem.Seeker\<close>) together with
  the \<^verbatim>\<open>recordio\<close> framing on top of it. A file is the sequence of its framed
  records, each with the number of bytes it occupies and the message it decodes to;
  \<open>pos\<close> is the byte position of the handle, \<open>unread\<close> what the coming calls of
  \<^verbatim>\<open>ReadMessage\<close> deliver (an empty list is the end of the stream), \<open>is_Seeker\<close>
  whether the type assertion \<^verbatim>\<open>.(filesystem.Seeker)\<close> succeeds. The three optional
  fields inject a failure of \<^verbatim>\<open>Write\<close>, \<^verbatim>\<open>Tell\<close> and \<^verbatim>\<open>Seek\<close>.
\<close>

record 'm File =
  frames :: "(nat \<times> 'm) list"
  pos :: int
  unread :: "(error + nat \<times> 'm) list"
  is_Seeker :: bool
  write_err :: "nat option"
  tell_err :: "nat option"
  seek_err :: "nat option"

text \<open>
  What a record reader sees from byte \<open>p\<close> of a file on: the records from there when
  \<open>p\<close> is the start of one, nothing at or beyond the end, a decoding failure inside a
  record or before the start.
\<close>

fun pending :: "(nat \<times> 'm) list \<Rightarrow> int \<Rightarrow> (error + nat \<times> 'm) list" where
  "pending [] p = []"
| "pending ((n, m) # fs) p =
     (if p = 0 then Inr (n, m) # pending fs 0
      else if 0 < p \<and> int n \<le> p then pending fs (p - int n)
      else [Inl (External 0)])"

definition file_size :: "'m File \<Rightarrow> int" where
  "file_size f = int (sum_list (map fst (frames f)))"

definition file_Tell :: "'m File \<Rightarrow> int \<times> error option" where
  "file_Tell f =
     (case tell_err f of
        None \<Rightarrow> (pos f, None)
      | Some e \<Rightarrow> (0, Some (External e)))"

definition file_Seek :: "'m File \<Rightarrow> int \<Rightarrow> error option \<times> 'm File" where
  "file_Seek f off =
     (case seek_err f of
        Some e \<Rightarrow> (Some (External e), f)
      | None \<Rightarrow> (None, f\<lparr>pos := off, unread := pending (frames f) off\<rparr>))"

text \<open>
  \<^verbatim>\<open>Read(ctx, p)\<close> on the raw stream with a buffer of \<open>l\<close> bytes: the number of
  bytes read, \<^verbatim>\<open>io.EOF\<close> when none is left.
\<close>

definition file_Read :: "'m File \<Rightarrow> int \<Rightarrow> (int \<times> error option) \<times> 'm File" where
  "file_Read f l =
     (let avail = file_size f - pos f in
      if avail \<le> 0 then ((0, Some io_EOF), f)
      else let n = min l avail in
        ((n, None), f\<lparr>pos := pos f + n, unread := pending (frames f) (pos f + n)\<rparr>))"

text \<open>\<^verbatim>\<open>Close\<close> of the in-memory file the package's tests use: it resets the position.\<close>

definition file_Close :: "'m File \<Rightarrow> 'm File" where
  "file_Close f = f\<lparr>pos := 0, unread := pending (frames f) 0\<rparr>"

text \<open>\<^verbatim>\<open>RecordReader.ReadMessage\<close>: the next record, \<^verbatim>\<open>io.EOF\<close> at the end.\<close>

definition ReadMessage :: "'m File \<Rightarrow> (error + 'm) \<times> 'm File" where
  "ReadMessage f =
     (case unread f of
        [] \<Rightarrow> (Inl io_EOF, f)
      | Inl e # rest \<Rightarrow> (Inl e, f\<lparr>unread := rest\<rparr>)
      | Inr (n, m) # rest \<Rightarrow> (Inr m, f\<lparr>unread := rest, pos := pos f + int n\<rparr>))"

text \<open>
  The protocol buffer runtime for the two messages and the framing overhead of
  \<^verbatim>\<open>recordio\<close>: \<open>kv_Size\<close> and \<open>ir_Size\<close> are \<^verbatim>\<open>proto.Size\<close>, the length of
  the encoding; \<open>kv_Marshal_err\<close> and \<open>ir_Marshal_err\<close> say when \<^verbatim>\<open>proto.Marshal\<close>
  fails. An encoded message is kept as its length and the message it decodes to.
\<close>

record Codec =
  framing :: nat
  kv_Size :: "KeyValue \<Rightarrow> nat"
  kv_Marshal_err :: "KeyValue \<Rightarrow> nat option"
  ir_Size :: "IndexRecord \<Rightarrow> nat"
  ir_Marshal_err :: "IndexRecord \<Rightarrow> nat option"

definition Marshal_KeyValue :: "Codec \<Rightarrow> KeyValue \<Rightarrow> error + nat \<times> KeyValue" where
  "Marshal_KeyValue c m =
     (case kv_Marshal_err c m of
        Some e \<Rightarrow> Inl (External e)
      | None \<Rightarrow> Inr (kv_Size c m, m))"

definition Marshal_IndexRecord :: "Codec \<Rightarrow> IndexRecord \<Rightarrow> error + nat \<times> IndexRecord" where
  "Marshal_IndexRecord c m =
     (case ir_Marshal_err c m of
        Some e \<Rightarrow> Inl (External e)
      | None \<Rightarrow> Inr (ir_Size c m, m))"

text \<open>
  \<^verbatim>\<open>RecordWriter.Write\<close>: appends one framed record and returns the number of bytes
  written, or fails and appends nothing.
\<close>

definition RecordWriter_Write :: "Codec \<Rightarrow> 'm File \<Rightarrow> nat \<times> 'm \<Rightarrow> (int \<times> error option) \<times> 'm File" where
  "RecordWriter_Write c f rec =
     (case write_err f of
        Some e \<Rightarrow> ((0, Some (External e)), f)
      | None \<Rightarrow>
          (let n = framing c + fst rec in
           ((int n, None), f\<lparr>frames := frames f @ [(n, snd rec)], pos := pos f + int n\<rparr>)))"

subsection \<open>The writer (writer.go)\<close>

definition IndexType_NONE :: int where "IndexType_NONE = 0"
definition IndexType_EVERY_N :: int where "IndexType_EVERY_N = 1"
definition IndexType_PREFIXLEN :: int where "IndexType_PREFIXLEN = 2"

text \<open>
  The struct \<^verbatim>\<open>Writer\<close> (README.md, lines 69 to 83). \<open>out\<close> is the record writer
  and the stream under it; \<open>out_seek\<close> says whether the field \<^verbatim>\<open>out_seek\<close> is
  non-nil (it is then the same stream); \<open>out_idx\<close> is \<open>None\<close> for nil.
\<close>

record Writer =
  out :: "KeyValue File"
  out_seek :: bool
  out_idx :: "IndexRecord File option"
  index_type :: int
  index_n :: int
  last_key :: string
  index_offset :: int
  prev_index_ctr :: int
  prev_index_prefix :: string

text \<open>\<^verbatim>\<open>NewWriter\<close> and \<^verbatim>\<open>NewIndexedWriter\<close> (lines 89 to 144).\<close>

definition NewWriter :: "KeyValue File \<Rightarrow> Writer" where
  "NewWriter f =
     (let offset = (if is_Seeker f
                    then (case file_Tell f of (off, None) \<Rightarrow> off | (off, Some e) \<Rightarrow> 0)
                    else 0)
      in \<lparr>out = f, out_seek = is_Seeker f, out_idx = None,
          index_type = IndexType_NONE, index_n = 0, last_key = [],
          index_offset = offset, prev_index_ctr = 0, prev_index_prefix = []\<rparr>)"

definition NewIndexedWriter :: "KeyValue File \<Rightarrow> IndexRecord File \<Rightarrow> int \<Rightarrow> int \<Rightarrow> Writer" where
  "NewIndexedWriter f f_idx ty n =
     (let offset = (if is_Seeker f
                    then (case file_Tell f of (off, None) \<Rightarrow> off | (off, Some e) \<Rightarrow> 0)
                    else 0)
      in \<lparr>out = f, out_seek = is_Seeker f, out_idx = Some f_idx,
          index_type = ty, index_n = n, last_key = [],
          index_offset = offset, prev_index_ctr = 0, prev_index_prefix = []\<rparr>)"

text \<open>Go's \<^verbatim>\<open>%\<close> truncates towards zero: the result has the sign of the dividend.\<close>

definition go_rem :: "int \<Rightarrow> int \<Rightarrow> int" where
  "go_rem a b = sgn a * (\<bar>a\<bar> mod \<bar>b\<bar>)"

text \<open>
  \<^verbatim>\<open>WriteString\<close> (lines 154 to 253), in four definitions. First the body shared by
  the two cases of its switch (lines 192 to 207 and 214 to 229): build the index record
  for key \<open>k\<close> at the current \<open>index_offset\<close>, marshal it, write it to the index
  stream, and remember \<open>k\<close> in \<open>prev_index_prefix\<close>. The first case is not reached:
  the caller has checked that \<^verbatim>\<open>out_idx\<close> is not nil.
\<close>

definition write_index_record :: "Codec \<Rightarrow> Writer \<Rightarrow> string \<Rightarrow> error option \<times> Writer" where
  "write_index_record c w k =
     (case out_idx w of
        None \<Rightarrow> (Some Runtime_panic, w)
      | Some f_idx \<Rightarrow>
          (case Marshal_IndexRecord c \<lparr>ir_Key = k, ir_Offset = index_offset w\<rparr> of
             Inl e \<Rightarrow> (Some e, w)
           | Inr idxdata \<Rightarrow>
               (case RecordWriter_Write c f_idx idxdata of
                  ((n, Some e), f_idx') \<Rightarrow> (Some e, w\<lparr>out_idx := Some f_idx'\<rparr>)
                | ((n, None), f_idx') \<Rightarrow>
                    (None, w\<lparr>out_idx := Some f_idx', prev_index_prefix := k\<rparr>))))"

text \<open>
  "Now, generate the index entry" (lines 180 to 235): the \<^verbatim>\<open>if\<close> with the
  \<^verbatim>\<open>switch\<close> inside. \<^verbatim>\<open>key[:w.index_n]\<close> panics for a negative \<open>index_n\<close>, and
  \<^verbatim>\<open>% w.index_n\<close> for \<open>index_n = 0\<close>.
\<close>

definition generate_index_entry :: "Codec \<Rightarrow> Writer \<Rightarrow> string \<Rightarrow> error option \<times> Writer" where
  "generate_index_entry c w key =
     (if out_idx w \<noteq> None \<and> index_type w \<noteq> IndexType_NONE then
        if index_type w = IndexType_PREFIXLEN then
          (if \<not> int (length key) \<le> index_n w \<and> index_n w < 0 then (Some Runtime_panic, w)
           else
             (let prefix = (if int (length key) \<le> index_n w then key
                            else take (nat (index_n w)) key)
              in if prefix \<noteq> prev_index_prefix w then write_index_record c w prefix
                 else (None, w)))
        else if index_type w = IndexType_EVERY_N then
          (if index_n w = 0 then (Some Runtime_panic, w)
           else
             (let w' = w\<lparr>prev_index_ctr := go_rem (prev_index_ctr w + 1) (index_n w)\<rparr> in
              if prev_index_ctr w' = 0 then write_index_record c w' key else (None, w')))
        else (Some Err_UnsupportedIndexType, w)
      else (None, w))"

text \<open>
  "Finally, update counters" (lines 237 to 250): the last \<^verbatim>\<open>if\<close> of
  \<^verbatim>\<open>WriteString\<close>; \<open>len\<close> is what the data write returned.
\<close>

definition update_counters :: "Writer \<Rightarrow> int \<Rightarrow> Writer" where
  "update_counters w len =
     (if out_seek w then
        (case file_Tell (out w) of
           (new_offset, None) \<Rightarrow> w\<lparr>index_offset := new_offset\<rparr>
         | (new_offset, Some e) \<Rightarrow> w\<lparr>index_offset := index_offset w + len\<rparr>)
      else w)"

text \<open>The function itself: the check of the key order, the data write, the two steps above.\<close>

definition WriteString :: "Codec \<Rightarrow> Writer \<Rightarrow> string \<Rightarrow> string \<Rightarrow> error option \<times> Writer" where
  "WriteString c w key val =
     (if strings_Compare (last_key w) key > 0 then (Some Err_KeyOrderViolation, w)
      else
        (case Marshal_KeyValue c \<lparr>kv_Key = key, kv_Value = val\<rparr> of
           Inl e \<Rightarrow> (Some e, w)
         | Inr rec \<Rightarrow>
             (case RecordWriter_Write c (out w) rec of
                ((len, Some e), f') \<Rightarrow> (Some e, w\<lparr>out := f'\<rparr>)
              | ((len, None), f') \<Rightarrow>
                  (case generate_index_entry c (w\<lparr>out := f', last_key := key\<rparr>) key of
                     (Some e, w') \<Rightarrow> (Some e, w')
                   | (None, w') \<Rightarrow> (None, update_counters w' len)))))"

text \<open>
  A structured value with the two operations of the protocol buffer runtime the package
  calls on it: \<^verbatim>\<open>proto.Marshal\<close>, and \<^verbatim>\<open>pb.Reset()\<close> followed by
  \<^verbatim>\<open>proto.Unmarshal\<close> into it.
\<close>

record 'pb Message =
  Marshal :: "'pb \<Rightarrow> error + string"
  Reset :: "'pb \<Rightarrow> 'pb"
  Unmarshal :: "string \<Rightarrow> 'pb \<Rightarrow> error option \<times> 'pb"

definition WriteProto :: "'pb Message \<Rightarrow> Codec \<Rightarrow> Writer \<Rightarrow> string \<Rightarrow> 'pb \<Rightarrow> error option \<times> Writer" where
  "WriteProto P c w key val =
     (case Marshal P val of
        Inl e \<Rightarrow> (Some e, w)
      | Inr pbdata \<Rightarrow> WriteString c w key pbdata)"

text \<open>
  \<^verbatim>\<open>WriteStringMap\<close> (lines 276 to 295) and \<^verbatim>\<open>WriteProtoMap\<close> (lines 301 to
  314). A Go map is given as the list of its entries, with distinct keys, in the order in
  which \<^verbatim>\<open>range\<close> happens to visit them; Go leaves that order open. \<open>data[key]\<close>
  is the zero value for a missing key. \<open>write_strings\<close> is the second loop of
  \<^verbatim>\<open>WriteStringMap\<close>, over the sorted keys.
\<close>

definition map_index :: "(string \<times> string) list \<Rightarrow> string \<Rightarrow> string" where
  "map_index data key = (case map_of data key of Some v \<Rightarrow> v | None \<Rightarrow> [])"

fun write_strings :: "Codec \<Rightarrow> Writer \<Rightarrow> (string \<times> string) list \<Rightarrow> string list \<Rightarrow> error option \<times> Writer" where
  "write_strings c w data [] = (None, w)"
| "write_strings c w data (key # keys) =
     (case WriteString c w key (map_index data key) of
        (Some e, w') \<Rightarrow> (Some e, w')
      | (None, w') \<Rightarrow> write_strings c w' data keys)"

definition WriteStringMap :: "Codec \<Rightarrow> Writer \<Rightarrow> (string \<times> string) list \<Rightarrow> error option \<times> Writer" where
  "WriteStringMap c w data = write_strings c w data (sort (map fst data))"

fun WriteProtoMap :: "'pb Message \<Rightarrow> Codec \<Rightarrow> Writer \<Rightarrow> (string \<times> 'pb) list \<Rightarrow> error option \<times> Writer" where
  "WriteProtoMap P c w [] = (None, w)"
| "WriteProtoMap P c w ((key, val) # data) =
     (case WriteProto P c w key val of
        (Some e, w') \<Rightarrow> (Some e, w')
      | (None, w') \<Rightarrow> WriteProtoMap P c w' data)"

subsection \<open>The reader (reader.go)\<close>

text \<open>
  The struct \<^verbatim>\<open>Reader\<close> (reader.go, lines 25 to 35).
  \<open>orig_in\<close> is the data stream, with the record reader \<^verbatim>\<open>in\<close> on top of it;
  \<open>orig_in_idx\<close> the index stream with \<^verbatim>\<open>in_idx\<close>, \<open>None\<close> when the reader has
  none (both fields nil). \<open>entry_index_cache\<close> is a Go map: its entries, with distinct
  keys, in the order in which \<^verbatim>\<open>range\<close> visits them.
\<close>

record Reader =
  orig_in :: "KeyValue File"
  offset :: int
  orig_in_idx :: "IndexRecord File option"
  idx_offset :: int
  cache_entry_index :: bool
  entry_index_cache :: "(string \<times> int) list"

definition NewReader :: "KeyValue File \<Rightarrow> Reader" where
  "NewReader f =
     \<lparr>orig_in = f, offset = 0, orig_in_idx = None, idx_offset = 0,
      cache_entry_index = False, entry_index_cache = []\<rparr>"

lemma ReadMessage_unread:
  "(Inr m, f') = ReadMessage f \<Longrightarrow> length (unread f') < length (unread f)"
  by (auto simp: ReadMessage_def split: list.splits sum.splits)

text \<open>
  The loop of \<^verbatim>\<open>cacheEntryIndex\<close> (lines 107 to 128). \<open>ctx_err\<close> is \<^verbatim>\<open>ctx.Err()\<close>, \<open>ok\<close> whether the
  index stream is a Seeker. The result is the error the function returns after the loop
  (\<^verbatim>\<open>io.EOF\<close> ends the loop and is no error).
\<close>

function cache_loop ::
  "Codec \<Rightarrow> error option \<Rightarrow> bool \<Rightarrow> IndexRecord File \<Rightarrow> int \<Rightarrow> (string \<times> int) list
   \<Rightarrow> error option \<times> IndexRecord File \<times> int \<times> (string \<times> int) list" where
  "cache_loop c ctx_err ok f idx_off cache =
     (case ctx_err of
        Some e \<Rightarrow> (Some e, f, idx_off, cache)
      | None \<Rightarrow>
          (case ReadMessage f of
             (Inl e, f') \<Rightarrow> (if e \<noteq> io_EOF then Some e else None, f', idx_off, cache)
           | (Inr ir, f') \<Rightarrow>
               (let idx_off' =
                      (if ok then
                         (case file_Tell f' of
                            (new_offset, None) \<Rightarrow> new_offset
                          | (new_offset, Some e) \<Rightarrow> idx_off + int (ir_Size c ir))
                       else idx_off + int (ir_Size c ir))
                in cache_loop c ctx_err ok f' idx_off'
                     (AList.update (ir_Key ir) (ir_Offset ir) cache))))"
  by pat_completeness auto
termination
  by (relation "measure (\<lambda>(c, ctx_err, ok, f, idx_off, cache). length (unread f))")
     (auto dest: ReadMessage_unread)

declare cache_loop.simps [simp del]

text \<open>\<^verbatim>\<open>cacheEntryIndex\<close> (lines 84 to 136) and \<^verbatim>\<open>NewReaderWithIdx\<close> (lines 59 to 78).\<close>

definition cacheEntryIndex :: "Codec \<Rightarrow> error option \<Rightarrow> Reader \<Rightarrow> error option \<times> Reader" where
  "cacheEntryIndex c ctx_err r =
     (case orig_in_idx r of
        Some f \<Rightarrow>
          if cache_entry_index r then
            (let ok = is_Seeker f; r0 = r\<lparr>entry_index_cache := []\<rparr> in
             if idx_offset r > 0 \<and> \<not> ok then (Some Err_NotSeeker, r0)
             else
               (case (if idx_offset r > 0 then file_Seek f 0 else (None, f)) of
                  (Some e, f0) \<Rightarrow> (Some e, r0\<lparr>orig_in_idx := Some f0\<rparr>)
                | (None, f0) \<Rightarrow>
                    (case cache_loop c ctx_err ok f0 (if idx_offset r > 0 then 0 else idx_offset r) [] of
                       (err, f', idx_off', cache') \<Rightarrow>
                         (err, r0\<lparr>orig_in_idx := Some f', idx_offset := idx_off',
                                  entry_index_cache := cache'\<rparr>))))
          else (None, r)
      | None \<Rightarrow> (None, r))"

definition NewReaderWithIdx ::
  "Codec \<Rightarrow> error option \<Rightarrow> KeyValue File \<Rightarrow> IndexRecord File \<Rightarrow> bool \<Rightarrow> Reader \<times> error option" where
  "NewReaderWithIdx c ctx_err sst idx create_cache =
     (let rd = \<lparr>orig_in = sst, offset = 0, orig_in_idx = Some idx, idx_offset = 0,
                cache_entry_index = create_cache, entry_index_cache = []\<rparr>
      in if create_cache then (case cacheEntryIndex c ctx_err rd of (err, rd') \<Rightarrow> (rd', err))
         else (rd, None))"

lemma file_Read_progress:
  "file_Read f l = ((n, None), f') \<Longrightarrow> 0 < l \<Longrightarrow> 0 < n"
  by (auto simp: file_Read_def Let_def split: if_splits)

text \<open>
  \<^verbatim>\<open>SeekTo\<close> (lines 167 to 202), after its loop that reads and discards up to 1024
  bytes at a time.
\<close>

function discard_until :: "Reader \<Rightarrow> int \<Rightarrow> error option \<times> Reader" where
  "discard_until r target =
     (if offset r < target then
        (let l = (if target - offset r < 1024 then target - offset r else 1024) in
         case file_Read (orig_in r) l of
           ((n, Some e), f') \<Rightarrow> (Some e, r\<lparr>orig_in := f', offset := offset r + n\<rparr>)
         | ((n, None), f') \<Rightarrow> discard_until (r\<lparr>orig_in := f', offset := offset r + n\<rparr>) target)
      else (None, r))"
  by pat_completeness auto
termination
proof (relation "measure (\<lambda>(r, target). nat (target - offset r))", goal_cases)
  case 1
  show ?case by simp
next
  case (2 r target l res f' n err)
  from 2 have "0 < l" by (simp split: if_splits)
  with 2 have "0 < n" using file_Read_progress [of "orig_in r" l n f'] by simp
  with 2 show ?case by simp
qed

declare discard_until.simps [simp del]

definition SeekTo :: "Reader \<Rightarrow> int \<Rightarrow> error option \<times> Reader" where
  "SeekTo r target =
     (if is_Seeker (orig_in r) then
        (case file_Seek (orig_in r) target of
           (Some e, f') \<Rightarrow> (Some e, r\<lparr>orig_in := f', offset := target\<rparr>)
         | (None, f') \<Rightarrow> (None, r\<lparr>orig_in := f'\<rparr>))
      else if offset r > target then (Some Err_NotSeeker, r)
      else discard_until r target)"

text \<open>
  \<^verbatim>\<open>indexLookup\<close> (lines 259 to 328), after its two loops. The loop over the cache
  (lines 265 to 276) runs over the entries in the order \<^verbatim>\<open>range\<close> yields them.
\<close>

fun cache_lookup :: "string \<Rightarrow> (string \<times> int) list \<Rightarrow> string \<Rightarrow> int \<Rightarrow> int" where
  "cache_lookup key [] closest_k closest_v = closest_v"
| "cache_lookup key ((k, v) # es) closest_k closest_v =
     (if strings_Compare key k > 0 then
        (if strings_Compare k closest_k > 0 then cache_lookup key es k v
         else cache_lookup key es closest_k closest_v)
      else if strings_Compare key k = 0 then v
      else cache_lookup key es closest_k closest_v)"

text \<open>The loop over the on-disk index (lines 298 to 322).\<close>

function disk_lookup ::
  "Codec \<Rightarrow> string \<Rightarrow> IndexRecord File \<Rightarrow> int \<Rightarrow> string \<Rightarrow> int
   \<Rightarrow> (int \<times> error option) \<times> IndexRecord File \<times> int" where
  "disk_lookup c key f idx_off closest_k closest_v =
     (case ReadMessage f of
        (Inl e, f') \<Rightarrow>
          (if e = io_EOF then ((closest_v, None), f', idx_off)
           else ((closest_v, Some e), f', idx_off))
      | (Inr ir, f') \<Rightarrow>
          (let idx_off' = idx_off + int (ir_Size c ir) in
           if strings_Compare key (ir_Key ir) > 0 then
             (if strings_Compare (ir_Key ir) closest_k > 0
              then disk_lookup c key f' idx_off' (ir_Key ir) (ir_Offset ir)
              else disk_lookup c key f' idx_off' closest_k closest_v)
           else if strings_Compare key (ir_Key ir) = 0 then ((ir_Offset ir, None), f', idx_off')
           else disk_lookup c key f' idx_off' closest_k closest_v))"
  by pat_completeness auto
termination
  by (relation "measure (\<lambda>(c, key, f, idx_off, closest_k, closest_v). length (unread f))")
     (auto dest: ReadMessage_unread)

declare disk_lookup.simps [simp del]

definition indexLookup :: "Codec \<Rightarrow> Reader \<Rightarrow> string \<Rightarrow> (int \<times> error option) \<times> Reader" where
  "indexLookup c r key =
     (if cache_entry_index r then ((cache_lookup key (entry_index_cache r) [] 0, None), r)
      else
        (case orig_in_idx r of
           Some f \<Rightarrow>
             if idx_offset r > 0 \<and> \<not> is_Seeker f then ((0, Some Err_NotSeeker), r)
             else
               (let f0 = (if idx_offset r > 0 then snd (file_Seek f 0) else f);
                    idx_off0 = (if idx_offset r > 0 then 0 else idx_offset r)
                in case disk_lookup c key f0 idx_off0 [] 0 of
                     (res, f', idx_off') \<Rightarrow> (res, r\<lparr>orig_in_idx := Some f', idx_offset := idx_off'\<rparr>))
         | None \<Rightarrow> ((idx_offset r, None), r)))"

text \<open>
  \<^verbatim>\<open>ReadString\<close> (lines 441 to 481), after its scanning loop (lines 459 to 480), and
  \<^verbatim>\<open>ReadProto\<close> (lines 487 to 502).
\<close>

function scan_for :: "string \<Rightarrow> KeyValue File \<Rightarrow> (string \<times> error option) \<times> KeyValue File" where
  "scan_for key f =
     (case ReadMessage f of
        (Inl e, f') \<Rightarrow> (if e = io_EOF then (([], None), f') else (([], Some e), f'))
      | (Inr rdata, f') \<Rightarrow>
          (let cv = strings_Compare (kv_Key rdata) key in
           if cv = 0 then ((kv_Value rdata, None), f')
           else if cv > 0 then (([], None), f')
           else scan_for key f'))"
  by pat_completeness auto
termination
  by (relation "measure (\<lambda>(key, f). length (unread f))") (auto dest: ReadMessage_unread)

declare scan_for.simps [simp del]

definition ReadString :: "Codec \<Rightarrow> Reader \<Rightarrow> string \<Rightarrow> (string \<times> error option) \<times> Reader" where
  "ReadString c r key =
     (case indexLookup c r key of
        ((off, Some e), r1) \<Rightarrow> (([], Some e), r1)
      | ((off, None), r1) \<Rightarrow>
          (case SeekTo r1 off of
             (Some e, r2) \<Rightarrow> (([], Some e), r2)
           | (None, r2) \<Rightarrow>
               (case scan_for key (orig_in r2) of
                  (res, f') \<Rightarrow> (res, r2\<lparr>orig_in := f'\<rparr>))))"

definition ReadProto ::
  "'pb Message \<Rightarrow> Codec \<Rightarrow> Reader \<Rightarrow> string \<Rightarrow> 'pb \<Rightarrow> (error option \<times> 'pb) \<times> Reader" where
  "ReadProto P c r key pb =
     (case ReadString c r key of
        ((val, Some e), r') \<Rightarrow> ((Some e, pb), r')
      | ((val, None), r') \<Rightarrow> (Unmarshal P val (Reset P pb), r'))"

subsection \<open>Concrete collaborators and scenarios\<close>

text \<open>
  An empty in-memory file that can seek and never fails, as the anonymous file of the
  package's tests; the same file as a stream that is no Seeker; and a codec that never
  fails, with four bytes of framing for each record.
\<close>

definition mem_file :: "'m File" where
  "mem_file = \<lparr>frames = [], pos = 0, unread = [], is_Seeker = True,
                write_err = None, tell_err = None, seek_err = None\<rparr>"

definition pipe_file :: "'m File" where
  "pipe_file = \<lparr>frames = [], pos = 0, unread = [], is_Seeker = False,
                 write_err = None, tell_err = None, seek_err = None\<rparr>"

definition test_codec :: Codec where
  "test_codec = \<lparr>framing = 4,
     kv_Size = (\<lambda>m. 4 + length (kv_Key m) + length (kv_Value m)),
     kv_Marshal_err = (\<lambda>m. None),
     ir_Size = (\<lambda>m. 11 + length (ir_Key m)),
     ir_Marshal_err = (\<lambda>m. None)\<rparr>"

text \<open>A structured value that is its own encoding.\<close>

definition raw_message :: "string Message" where
  "raw_message = \<lparr>Marshal = Inr, Reset = (\<lambda>m. []), Unmarshal = (\<lambda>buf m. (None, buf))\<rparr>"

text \<open>
  What a writer leaves behind: the index records it emitted, and its two streams closed
  (position reset) for a reader to open.
\<close>

definition index_entries :: "Writer \<Rightarrow> IndexRecord list" where
  "index_entries w = (case out_idx w of None \<Rightarrow> [] | Some f \<Rightarrow> map snd (frames f))"

definition table_of :: "Writer \<Rightarrow> KeyValue File" where
  "table_of w = file_Close (out w)"

definition index_of :: "Writer \<Rightarrow> IndexRecord File" where
  "index_of w = (case out_idx w of None \<Rightarrow> mem_file | Some f \<Rightarrow> file_Close f)"

text \<open>The byte offset at which the first record with key \<open>k\<close> starts in a data file.\<close>

fun record_offset :: "(nat \<times> KeyValue) list \<Rightarrow> string \<Rightarrow> int option" where
  "record_offset [] k = None"
| "record_offset ((n, m) # fs) k =
     (if kv_Key m = k then Some 0 else map_option (\<lambda>off. int n + off) (record_offset fs k))"

text \<open>The entries of an index file and the records of a data file, in file order.\<close>

definition entries_of :: "(nat \<times> IndexRecord) list \<Rightarrow> (string \<times> int) list" where
  "entries_of fs = map (\<lambda>x. (ir_Key (snd x), ir_Offset (snd x))) fs"

definition records_of :: "(nat \<times> KeyValue) list \<Rightarrow> (string \<times> string) list" where
  "records_of fs = map (\<lambda>x. (kv_Key (snd x), kv_Value (snd x))) fs"

text \<open>
  The scenario of section 8 of the specification: \<open>aaa\<close>, \<open>aab\<close>, \<open>mmm\<close> written
  through a writer with \<^verbatim>\<open>IndexType_EVERY_N\<close> and \<open>n = 2\<close> over two in-memory files.
\<close>

definition abc_w0 :: "Codec \<Rightarrow> Writer" where
  "abc_w0 c = NewIndexedWriter mem_file mem_file IndexType_EVERY_N 2"

definition abc_w1 :: "Codec \<Rightarrow> Writer" where
  "abc_w1 c = snd (WriteString c (abc_w0 c) ''aaa'' ''foo'')"

definition abc_w2 :: "Codec \<Rightarrow> Writer" where
  "abc_w2 c = snd (WriteString c (abc_w1 c) ''aab'' ''bar'')"

definition abc_w3 :: "Codec \<Rightarrow> Writer" where
  "abc_w3 c = snd (WriteString c (abc_w2 c) ''mmm'' ''baz'')"

text \<open>The writer of the package's test of the key order, after its first record.\<close>

definition order_writer :: Writer where
  "order_writer = snd (WriteString test_codec (NewWriter mem_file) ''test2'' ''data2'')"

text \<open>A writer whose data stream refuses every write.\<close>

definition failing_writer :: Writer where
  "failing_writer = NewWriter (mem_file\<lparr>write_err := Some 7\<rparr>)"

text \<open>Two records with the empty key under \<^verbatim>\<open>IndexType_EVERY_N\<close>, \<open>n = 2\<close>.\<close>

definition blank_key_writer :: Writer where
  "blank_key_writer =
     snd (WriteString test_codec
       (snd (WriteString test_codec (NewIndexedWriter mem_file mem_file IndexType_EVERY_N 2) [] ''x''))
       [] ''y'')"

text \<open>A table in which the key \<open>abc\<close> is present with the empty value.\<close>

definition blank_table :: "KeyValue File" where
  "blank_table = table_of (snd (WriteString test_codec (abc_w1 test_codec) ''abc'' []))"





text \<open>The keys of \<open>es\<close> strictly between \<open>ck\<close> and \<open>key\<close>.\<close>

definition below :: "string \<Rightarrow> (string \<times> int) list \<Rightarrow> string \<Rightarrow> string set" where
  "below key es ck = {k \<in> fst ` set es. k < key \<and> ck < k}"

section \<open>Evaluation\<close>

lemmas writer_defs = NewWriter_def NewIndexedWriter_def mem_file_def pipe_file_def WriteString_def
  strings_Compare_def Marshal_KeyValue_def RecordWriter_Write_def generate_index_entry_def
  IndexType_NONE_def IndexType_EVERY_N_def IndexType_PREFIXLEN_def update_counters_def
  file_Tell_def Let_def write_index_record_def Marshal_IndexRecord_def go_rem_def

lemmas reader_defs = NewReader_def NewReaderWithIdx_def cacheEntryIndex_def cache_loop.simps
  indexLookup_def disk_lookup.simps SeekTo_def discard_until.simps file_Seek_def file_Read_def
  file_size_def file_Close_def ReadMessage_def ReadString_def scan_for.simps ReadProto_def

lemma strings_Compare_pos: "0 < strings_Compare a b \<longleftrightarrow> b < a"
  by (auto simp: strings_Compare_def)

lemma strings_Compare_zero: "strings_Compare a b = 0 \<longleftrightarrow> a = b"
  by (auto simp: strings_Compare_def)

lemma test_codec_total:
  "\<forall>m. kv_Marshal_err test_codec m = None" "\<forall>m. ir_Marshal_err test_codec m = None"
  by (simp_all add: test_codec_def)

lemma order_writer_eq:
  "order_writer =
     \<lparr>out = \<lparr>frames = [(18, \<lparr>kv_Key = ''test2'', kv_Value = ''data2''\<rparr>)], pos = 18, unread = [],
              is_Seeker = True, write_err = None, tell_err = None, seek_err = None\<rparr>,
      out_seek = True, out_idx = None, index_type = 0, index_n = 0, last_key = ''test2'',
      index_offset = 18, prev_index_ctr = 0, prev_index_prefix = []\<rparr>"
  by (simp add: order_writer_def test_codec_def writer_defs)

lemma abc_table_eq:
  "table_of (abc_w3 test_codec) =
     \<lparr>frames = [(14, \<lparr>kv_Key = ''aaa'', kv_Value = ''foo''\<rparr>),
                 (14, \<lparr>kv_Key = ''aab'', kv_Value = ''bar''\<rparr>),
                 (14, \<lparr>kv_Key = ''mmm'', kv_Value = ''baz''\<rparr>)],
      pos = 0,
      unread = [Inr (14, \<lparr>kv_Key = ''aaa'', kv_Value = ''foo''\<rparr>),
                Inr (14, \<lparr>kv_Key = ''aab'', kv_Value = ''bar''\<rparr>),
                Inr (14, \<lparr>kv_Key = ''mmm'', kv_Value = ''baz''\<rparr>)],
      is_Seeker = True, write_err = None, tell_err = None, seek_err = None\<rparr>"
  by (simp add: abc_w3_def abc_w2_def abc_w1_def abc_w0_def table_of_def test_codec_def
      writer_defs file_Close_def)


lemma blank_table_eq:
  "blank_table =
     \<lparr>frames = [(14, \<lparr>kv_Key = ''aaa'', kv_Value = ''foo''\<rparr>),
                 (11, \<lparr>kv_Key = ''abc'', kv_Value = []\<rparr>)],
      pos = 0,
      unread = [Inr (14, \<lparr>kv_Key = ''aaa'', kv_Value = ''foo''\<rparr>),
                Inr (11, \<lparr>kv_Key = ''abc'', kv_Value = []\<rparr>)],
      is_Seeker = True, write_err = None, tell_err = None, seek_err = None\<rparr>"
  by (simp add: blank_table_def abc_w1_def abc_w0_def table_of_def test_codec_def writer_defs
      file_Close_def)




section \<open>Properties of the writer\<close>

subsection \<open>Key order\<close>

lemma write_index_record_err:
  "fst (write_index_record c w k) \<noteq> Some Err_KeyOrderViolation"
  by (auto simp: write_index_record_def Marshal_IndexRecord_def RecordWriter_Write_def Let_def
           split: option.splits sum.splits prod.splits)

lemma generate_index_entry_err:
  "fst (generate_index_entry c w k) \<noteq> Some Err_KeyOrderViolation"
  by (simp add: generate_index_entry_def Let_def write_index_record_err)

lemma WriteString_violation:
  "key < last_key w \<Longrightarrow> WriteString c w key val = (Some Err_KeyOrderViolation, w)"
  by (simp add: WriteString_def strings_Compare_pos)

lemma WriteString_no_violation:
  "\<not> key < last_key w \<Longrightarrow> fst (WriteString c w key val) \<noteq> Some Err_KeyOrderViolation"
proof -
  assume nv: "\<not> key < last_key w"
  have g: "fst (generate_index_entry c w'' key) \<noteq> Some Err_KeyOrderViolation" for w''
    by (rule generate_index_entry_err)
  show ?thesis
    using nv g
    apply (simp add: WriteString_def strings_Compare_pos Marshal_KeyValue_def
        RecordWriter_Write_def Let_def split: option.splits prod.splits)
    apply (metis fst_conv)
    done
qed

text \<open>
  Claim C2. \<^verbatim>\<open>WriteString\<close> returns \<^verbatim>\<open>Err_KeyOrderViolation\<close> exactly when the
  new key is strictly less than the last key written, so an equal key is accepted; the
  call then returns the writer as it was, streams included, so nothing is appended and
  later writes go on from the same state. On a writer fresh from \<^verbatim>\<open>NewWriter\<close> or
  \<^verbatim>\<open>NewIndexedWriter\<close> the last key is the empty string and no key violates the order.
\<close>

theorem WriteString_key_order:
  "(fst (WriteString c w key val) = Some Err_KeyOrderViolation \<longleftrightarrow> key < last_key w)
   \<and> (key < last_key w \<longrightarrow> snd (WriteString c w key val) = w)
   \<and> fst (WriteString c (NewWriter f) key val) \<noteq> Some Err_KeyOrderViolation
   \<and> fst (WriteString c (NewIndexedWriter f f_idx ty n) key val) \<noteq> Some Err_KeyOrderViolation"
proof -
  have fresh1: "last_key (NewWriter f) = []"
    by (simp add: NewWriter_def Let_def)
  have fresh2: "last_key (NewIndexedWriter f f_idx ty n) = []"
    by (simp add: NewIndexedWriter_def Let_def)
  show ?thesis
    using WriteString_no_violation [of key w c val] WriteString_violation [of key w c val]
      WriteString_no_violation [of key "NewWriter f" c val]
      WriteString_no_violation [of key "NewIndexedWriter f f_idx ty n" c val]
    by (auto simp: fresh1 fresh2)
qed

text \<open>
  The package's test of the key order: after \<open>test2\<close> the key \<open>test1\<close> is refused and
  the writer is unchanged; \<open>test2\<close> is then accepted a second time.
\<close>

theorem WriteString_key_order_witness:
  "''test1'' < last_key order_writer
   \<and> WriteString test_codec order_writer ''test1'' ''data1'' = (Some Err_KeyOrderViolation, order_writer)
   \<and> fst (WriteString test_codec order_writer ''test2'' ''data3'') = None"
proof -
  have lt: "''test1'' < last_key order_writer"
    by (simp add: order_writer_eq)
  have again: "fst (WriteString test_codec order_writer ''test2'' ''data3'') = None"
    by (simp add: order_writer_eq test_codec_def writer_defs)
  from lt WriteString_key_order [of test_codec order_writer "''test1''" "''data1''"]
  have "fst (WriteString test_codec order_writer ''test1'' ''data1'') = Some Err_KeyOrderViolation"
    and "snd (WriteString test_codec order_writer ''test1'' ''data1'') = order_writer"
    by simp_all
  then have "WriteString test_codec order_writer ''test1'' ''data1''
      = (Some Err_KeyOrderViolation, order_writer)"
    by (simp add: prod_eq_iff)
  with lt again show ?thesis by simp
qed

subsection \<open>Batch writes\<close>

lemma write_index_record_last_key:
  "last_key (snd (write_index_record c w k)) = last_key w"
  by (auto simp: write_index_record_def Let_def split: option.splits sum.splits prod.splits)

lemma generate_index_entry_last_key:
  "generate_index_entry c w k = (e, w') \<Longrightarrow> last_key w' = last_key w"
proof -
  have "last_key (snd (generate_index_entry c w k)) = last_key w"
    by (simp add: generate_index_entry_def Let_def write_index_record_last_key)
  then show "generate_index_entry c w k = (e, w') \<Longrightarrow> last_key w' = last_key w"
    by simp
qed

lemma update_counters_last_key:
  "last_key (update_counters w len) = last_key w"
  by (simp add: update_counters_def split: prod.splits option.splits)

lemma WriteString_last_key:
  "WriteString c w key val = (None, w') \<Longrightarrow> last_key w' = key"
  by (auto simp: WriteString_def update_counters_last_key
           dest!: generate_index_entry_last_key
           split: if_splits sum.splits prod.splits option.splits)

lemma write_strings_order:
  "sorted keys \<Longrightarrow> \<forall>k\<in>set keys. last_key w \<le> k
   \<Longrightarrow> fst (write_strings c w data keys) \<noteq> Some Err_KeyOrderViolation"
proof (induction keys arbitrary: w)
  case Nil
  then show ?case by simp
next
  case (Cons k keys)
  from Cons.prems have nv: "\<not> k < last_key w" by auto
  obtain e w' where res: "WriteString c w k (map_index data k) = (e, w')"
    by (cases "WriteString c w k (map_index data k)")
  show ?case
  proof (cases e)
    case None
    with res have "last_key w' = k" by (simp add: WriteString_last_key)
    with Cons.prems have "\<forall>k'\<in>set keys. last_key w' \<le> k'" by auto
    with Cons.prems have "fst (write_strings c w' data keys) \<noteq> Some Err_KeyOrderViolation"
      by (intro Cons.IH) simp_all
    with res None show ?thesis by simp
  next
    case (Some err)
    from nv have "fst (WriteString c w k (map_index data k)) \<noteq> Some Err_KeyOrderViolation"
      by (rule WriteString_no_violation)
    with res Some show ?thesis by simp
  qed
qed

text \<open>
  \<^verbatim>\<open>WriteStringMap\<close> sorts the keys: on a fresh writer it never reports an order
  violation, in whatever order \<^verbatim>\<open>range\<close> visits the map.
\<close>

lemma WriteStringMap_order:
  "fst (WriteStringMap c (NewWriter f) data) \<noteq> Some Err_KeyOrderViolation
   \<and> fst (WriteStringMap c (NewIndexedWriter f f_idx ty n) data) \<noteq> Some Err_KeyOrderViolation"
  by (simp add: WriteStringMap_def write_strings_order NewWriter_def NewIndexedWriter_def Let_def)

text \<open>
  Claim C4, evaluated where it fails. \<^verbatim>\<open>WriteProtoMap\<close> does not sort: it writes the
  entries in the order \<^verbatim>\<open>range\<close> yields them. For the map \<open>{a: 1, b: 2}\<close> visited as
  \<open>b\<close>, \<open>a\<close> on a fresh writer, the second write fails with
  \<^verbatim>\<open>Err_KeyOrderViolation\<close>; \<^verbatim>\<open>WriteStringMap\<close> on the same entries in the same
  order succeeds.
\<close>

theorem WriteProtoMap_unsorted:
  "fst (WriteProtoMap raw_message test_codec (NewWriter mem_file) [(''b'', ''2''), (''a'', ''1'')])
     = Some Err_KeyOrderViolation
   \<and> fst (WriteStringMap test_codec (NewWriter mem_file) [(''b'', ''2''), (''a'', ''1'')]) = None"
  by (simp add: test_codec_def writer_defs raw_message_def WriteProto_def WriteStringMap_def
      map_index_def)

subsection \<open>The write cursor\<close>

lemma write_index_record_frame:
  "index_offset (snd (write_index_record c w k)) = index_offset w
   \<and> out_seek (snd (write_index_record c w k)) = out_seek w
   \<and> out (snd (write_index_record c w k)) = out w"
  by (auto simp: write_index_record_def Let_def split: option.splits sum.splits prod.splits)

lemma generate_index_entry_frame:
  "generate_index_entry c w k = (e, w') \<Longrightarrow>
     index_offset w' = index_offset w \<and> out_seek w' = out_seek w \<and> out w' = out w"
proof -
  have "index_offset (snd (generate_index_entry c w k)) = index_offset w
   \<and> out_seek (snd (generate_index_entry c w k)) = out_seek w
   \<and> out (snd (generate_index_entry c w k)) = out w"
    by (simp add: generate_index_entry_def Let_def write_index_record_frame)
  then show "generate_index_entry c w k = (e, w') \<Longrightarrow>
     index_offset w' = index_offset w \<and> out_seek w' = out_seek w \<and> out w' = out w"
    by simp
qed

text \<open>
  After a successful write: with a Seeker whose \<^verbatim>\<open>Tell\<close> succeeds the cursor is the
  position of the stream; with a Seeker whose \<^verbatim>\<open>Tell\<close> fails it advances by the
  length written; without a Seeker it does not move.
\<close>

lemma WriteString_offset:
  assumes "WriteString c w key val = (None, w')"
  shows "index_offset w' =
     (if out_seek w then
        (if tell_err (out w) = None then pos (out w')
         else index_offset w + int (framing c + kv_Size c \<lparr>kv_Key = key, kv_Value = val\<rparr>))
      else index_offset w)"
  using assms
  by (auto simp: WriteString_def update_counters_def file_Tell_def Marshal_KeyValue_def
        RecordWriter_Write_def Let_def
           dest!: generate_index_entry_frame
           split: if_splits sum.splits prod.splits option.splits)

text \<open>
  Claim C5, evaluated where it fails. On a stream that is no Seeker (\<^verbatim>\<open>out_seek\<close> is
  nil) a successful \<^verbatim>\<open>WriteString\<close> appends a record of 14 bytes and leaves
  \<open>index_offset\<close> at 0: the cursor is not advanced by the length written.
\<close>

theorem WriteString_no_seeker_offset:
  "fst (WriteString test_codec (NewWriter pipe_file) ''aaa'' ''foo'') = None
   \<and> frames (out (snd (WriteString test_codec (NewWriter pipe_file) ''aaa'' ''foo'')))
       = [(14, \<lparr>kv_Key = ''aaa'', kv_Value = ''foo''\<rparr>)]
   \<and> index_offset (NewWriter pipe_file) = 0
   \<and> index_offset (snd (WriteString test_codec (NewWriter pipe_file) ''aaa'' ''foo'')) = 0"
  by (simp add: test_codec_def writer_defs)

subsection \<open>A failing data write\<close>

text \<open>
  Claim C6 as stated fails: when the data write fails, \<^verbatim>\<open>WriteString\<close> returns the
  stream's error and the writer it was given; \<open>last_key\<close> is still empty, not \<open>aaa\<close>,
  and \<open>index_offset\<close> is still 0.
\<close>

theorem WriteString_data_write_fails_counterexample:
  "WriteString test_codec failing_writer ''aaa'' ''foo'' = (Some (External 7), failing_writer)
   \<and> last_key failing_writer = []
   \<and> index_offset failing_writer = 0
   \<and> last_key (snd (WriteString test_codec failing_writer ''aaa'' ''foo'')) \<noteq> ''aaa''"
  by (simp add: failing_writer_def test_codec_def writer_defs)

text \<open>
  Claim C6, amended. When the key is in order, the record marshals and the data write
  fails, \<^verbatim>\<open>WriteString\<close> returns the error of the write unmodified and no field of
  the writer has changed but the stream the failed write may have touched: \<open>last_key\<close>
  and \<open>index_offset\<close> keep their values.
\<close>

theorem WriteString_data_write_fails:
  assumes "\<not> key < last_key w"
    and "Marshal_KeyValue c \<lparr>kv_Key = key, kv_Value = val\<rparr> = Inr rec"
    and "RecordWriter_Write c (out w) rec = ((len, Some e), f')"
  shows "WriteString c w key val = (Some e, w\<lparr>out := f'\<rparr>)
       \<and> last_key (snd (WriteString c w key val)) = last_key w
       \<and> index_offset (snd (WriteString c w key val)) = index_offset w"
  using assms by (simp add: WriteString_def strings_Compare_pos)

theorem WriteString_data_write_fails_witness:
  "\<not> ''aaa'' < last_key failing_writer
   \<and> Marshal_KeyValue test_codec \<lparr>kv_Key = ''aaa'', kv_Value = ''foo''\<rparr>
       = Inr (10, \<lparr>kv_Key = ''aaa'', kv_Value = ''foo''\<rparr>)
   \<and> RecordWriter_Write test_codec (out failing_writer) (10, \<lparr>kv_Key = ''aaa'', kv_Value = ''foo''\<rparr>)
       = ((0, Some (External 7)), out failing_writer)
   \<and> WriteString test_codec failing_writer ''aaa'' ''foo''
       = (Some (External 7), failing_writer\<lparr>out := out failing_writer\<rparr>)
   \<and> last_key (snd (WriteString test_codec failing_writer ''aaa'' ''foo'')) = last_key failing_writer"
proof -
  have a: "\<not> ''aaa'' < last_key failing_writer"
    by (simp add: failing_writer_def writer_defs)
  have b: "Marshal_KeyValue test_codec \<lparr>kv_Key = ''aaa'', kv_Value = ''foo''\<rparr>
      = Inr (10, \<lparr>kv_Key = ''aaa'', kv_Value = ''foo''\<rparr>)"
    by (simp add: test_codec_def writer_defs)
  have c: "RecordWriter_Write test_codec (out failing_writer)
      (10, \<lparr>kv_Key = ''aaa'', kv_Value = ''foo''\<rparr>) = ((0, Some (External 7)), out failing_writer)"
    by (simp add: failing_writer_def writer_defs)
  from a b c WriteString_data_write_fails [OF a b c] show ?thesis by simp
qed

section \<open>Properties of the reader\<close>

subsection \<open>The scan of the data stream\<close>

lemma ReadMessage_Inr:
  "unread f = Inr (n, m) # rest
   \<Longrightarrow> ReadMessage f = (Inr m, f\<lparr>unread := rest, pos := pos f + int n\<rparr>)"
  by (simp add: ReadMessage_def)

lemma ReadMessage_Nil:
  "unread f = [] \<Longrightarrow> ReadMessage f = (Inl io_EOF, f)"
  by (simp add: ReadMessage_def)

lemma pending_zero: "pending fs 0 = map Inr fs"
  by (induction fs) auto

lemma scan_for_end:
  "unread f = map Inr pre \<Longrightarrow> \<forall>x\<in>set pre. kv_Key (snd x) < key
   \<Longrightarrow> fst (scan_for key f) = ([], None)"
proof (induction pre arbitrary: f)
  case Nil
  then show ?case by (subst scan_for.simps) (simp add: ReadMessage_Nil)
next
  case (Cons p pre)
  obtain n m where p: "p = (n, m)" by (cases p)
  from Cons.prems p have u: "unread f = Inr (n, m) # map Inr pre" by simp
  from Cons.prems p have lt: "kv_Key m < key" by simp
  then have ne: "kv_Key m \<noteq> key" "\<not> key < kv_Key m" by auto
  have "fst (scan_for key (f\<lparr>unread := map Inr pre, pos := pos f + int n\<rparr>)) = ([], None)"
    using Cons.prems by (intro Cons.IH) simp_all
  with ne show ?case
    by (subst scan_for.simps)
       (simp add: ReadMessage_Inr [OF u] strings_Compare_pos strings_Compare_zero)
qed

lemma scan_for_found:
  "unread f = map Inr pre @ Inr (n, kv) # rest \<Longrightarrow> \<forall>x\<in>set pre. kv_Key (snd x) < key
   \<Longrightarrow> kv_Key kv = key \<Longrightarrow> fst (scan_for key f) = (kv_Value kv, None)"
proof (induction pre arbitrary: f)
  case Nil
  then have u: "unread f = Inr (n, kv) # rest" by simp
  from Nil show ?case
    by (subst scan_for.simps) (simp add: ReadMessage_Inr [OF u] strings_Compare_zero)
next
  case (Cons p pre)
  obtain n' m where p: "p = (n', m)" by (cases p)
  from Cons.prems p have u: "unread f = Inr (n', m) # (map Inr pre @ Inr (n, kv) # rest)"
    by simp
  from Cons.prems p have lt: "kv_Key m < key" by simp
  then have ne: "kv_Key m \<noteq> key" "\<not> key < kv_Key m" by auto
  have "fst (scan_for key (f\<lparr>unread := map Inr pre @ Inr (n, kv) # rest, pos := pos f + int n'\<rparr>))
        = (kv_Value kv, None)"
    using Cons.prems by (intro Cons.IH) simp_all
  with ne show ?case
    by (subst scan_for.simps)
       (simp add: ReadMessage_Inr [OF u] strings_Compare_pos strings_Compare_zero)
qed

lemma scan_for_passed:
  "unread f = map Inr pre @ Inr (n, kv) # rest \<Longrightarrow> \<forall>x\<in>set pre. kv_Key (snd x) < key
   \<Longrightarrow> key < kv_Key kv \<Longrightarrow> fst (scan_for key f) = ([], None)"
proof (induction pre arbitrary: f)
  case Nil
  then have u: "unread f = Inr (n, kv) # rest" by simp
  from Nil have "kv_Key kv \<noteq> key" by auto
  with Nil show ?case
    by (subst scan_for.simps)
       (simp add: ReadMessage_Inr [OF u] strings_Compare_pos strings_Compare_zero)
next
  case (Cons p pre)
  obtain n' m where p: "p = (n', m)" by (cases p)
  from Cons.prems p have u: "unread f = Inr (n', m) # (map Inr pre @ Inr (n, kv) # rest)"
    by simp
  from Cons.prems p have lt: "kv_Key m < key" by simp
  then have ne: "kv_Key m \<noteq> key" "\<not> key < kv_Key m" by auto
  have "fst (scan_for key (f\<lparr>unread := map Inr pre @ Inr (n, kv) # rest, pos := pos f + int n'\<rparr>))
        = ([], None)"
    using Cons.prems by (intro Cons.IH) simp_all
  with ne show ?case
    by (subst scan_for.simps)
       (simp add: ReadMessage_Inr [OF u] strings_Compare_pos strings_Compare_zero)
qed

lemma scan_for_absent:
  "unread f = map Inr fs \<Longrightarrow> \<forall>x\<in>set fs. kv_Key (snd x) \<noteq> key
   \<Longrightarrow> fst (scan_for key f) = ([], None)"
proof (induction fs arbitrary: f)
  case Nil
  then show ?case by (subst scan_for.simps) (simp add: ReadMessage_Nil)
next
  case (Cons p fs)
  obtain n m where p: "p = (n, m)" by (cases p)
  from Cons.prems p have u: "unread f = Inr (n, m) # map Inr fs" by simp
  from Cons.prems p have ne: "kv_Key m \<noteq> key" by simp
  have "fst (scan_for key (f\<lparr>unread := map Inr fs, pos := pos f + int n\<rparr>)) = ([], None)"
    using Cons.prems by (intro Cons.IH) simp_all
  with ne show ?case
    by (subst scan_for.simps)
       (simp add: ReadMessage_Inr [OF u] strings_Compare_pos strings_Compare_zero)
qed

lemma ReadString_scan_for:
  "indexLookup c r key = ((off, None), r1) \<Longrightarrow> SeekTo r1 off = (None, r2)
   \<Longrightarrow> fst (ReadString c r key) = fst (scan_for key (orig_in r2))"
  by (simp add: ReadString_def split: prod.splits)

text \<open>
  Claim C3. Let the index lookup and the seek of \<^verbatim>\<open>ReadString\<close> succeed, and let the
  data stream then deliver the records \<open>pre\<close>, all with keys below the target (the
  records the scan reads and skips; in a stream in ascending key order these are all the
  records before the first key at or above the target), followed by \<open>rest\<close>. If \<open>rest\<close>
  starts with a record whose key is the target, its value is returned with no error; if
  it starts with a record whose key is greater, the empty value is returned with no
  error; if the stream ends there, the empty value is returned with no error.
\<close>

theorem ReadString_scan:
  assumes "indexLookup c r key = ((off, None), r1)"
    and "SeekTo r1 off = (None, r2)"
    and "unread (orig_in r2) = map Inr pre @ rest"
    and "\<forall>x\<in>set pre. kv_Key (snd x) < key"
  shows "(\<forall>n kv rest'. rest = Inr (n, kv) # rest' \<and> kv_Key kv = key
            \<longrightarrow> fst (ReadString c r key) = (kv_Value kv, None))
       \<and> (\<forall>n kv rest'. rest = Inr (n, kv) # rest' \<and> key < kv_Key kv
            \<longrightarrow> fst (ReadString c r key) = ([], None))
       \<and> (rest = [] \<longrightarrow> fst (ReadString c r key) = ([], None))"
  using assms
  by (auto simp: ReadString_scan_for [OF assms(1,2)] scan_for_found scan_for_passed
           intro: scan_for_end)

text \<open>
  On the table \<open>aaa\<close>, \<open>aab\<close>, \<open>mmm\<close>: \<open>mmm\<close> is found, \<open>abc\<close> is passed at
  \<open>mmm\<close>, and the scan for \<open>zzz\<close> reaches the end of the stream.
\<close>

theorem ReadString_scan_witness:
  "fst (ReadString test_codec (NewReader (table_of (abc_w3 test_codec))) ''mmm'') = (''baz'', None)
   \<and> fst (ReadString test_codec (NewReader (table_of (abc_w3 test_codec))) ''abc'') = ([], None)
   \<and> fst (ReadString test_codec (NewReader (table_of (abc_w3 test_codec))) ''zzz'') = ([], None)"
proof -
  let ?r = "NewReader (table_of (abc_w3 test_codec))"
  let ?a = "(14, \<lparr>kv_Key = ''aaa'', kv_Value = ''foo''\<rparr>)"
  let ?b = "(14, \<lparr>kv_Key = ''aab'', kv_Value = ''bar''\<rparr>)"
  let ?m = "(14, \<lparr>kv_Key = ''mmm'', kv_Value = ''baz''\<rparr>)"
  have look: "indexLookup test_codec ?r key = ((0, None), ?r)" for key
    by (simp add: NewReader_def indexLookup_def)
  have seek: "SeekTo ?r 0 = (None, ?r)"
    by (simp add: abc_table_eq NewReader_def SeekTo_def file_Seek_def)
  have u1: "unread (orig_in ?r) = map Inr [?a, ?b] @ [Inr ?m]"
    by (simp add: abc_table_eq NewReader_def)
  have u2: "unread (orig_in ?r) = map Inr [?a, ?b, ?m] @ []"
    by (simp add: abc_table_eq NewReader_def)
  have p1: "\<forall>x\<in>set [?a, ?b]. kv_Key (snd x) < ''mmm''" by simp
  have p2: "\<forall>x\<in>set [?a, ?b]. kv_Key (snd x) < ''abc''" by simp
  have p3: "\<forall>x\<in>set [?a, ?b, ?m]. kv_Key (snd x) < ''zzz''" by simp
  show ?thesis
    using ReadString_scan [OF look seek u1 p1] ReadString_scan [OF look seek u1 p2]
      ReadString_scan [OF look seek u2 p3]
    by simp
qed

text \<open>
  With the records in ascending key order, a reader without index over a whole intact
  table returns the value of the first record with the key, or the empty value.
\<close>

lemma scan_for_sorted:
  "unread f = map Inr fs \<Longrightarrow> sorted (map fst (records_of fs))
   \<Longrightarrow> fst (scan_for key f) = (case map_of (records_of fs) key of Some v \<Rightarrow> v | None \<Rightarrow> [], None)"
proof (induction fs arbitrary: f)
  case Nil
  then show ?case by (subst scan_for.simps) (simp add: ReadMessage_Nil records_of_def)
next
  case (Cons p fs)
  obtain n m where p: "p = (n, m)" by (cases p)
  from Cons.prems p have u: "unread f = Inr (n, m) # map Inr fs" by simp
  from Cons.prems p have s: "sorted (map fst (records_of fs))"
    and le: "\<forall>k\<in>set (map fst (records_of fs)). kv_Key m \<le> k"
    by (simp_all add: records_of_def)
  have IH: "fst (scan_for key (f\<lparr>unread := map Inr fs, pos := pos f + int n\<rparr>))
      = (case map_of (records_of fs) key of Some v \<Rightarrow> v | None \<Rightarrow> [], None)"
    using s by (intro Cons.IH) simp_all
  consider (eq) "kv_Key m = key" | (gt) "key < kv_Key m" | (lt) "kv_Key m < key"
    by (metis not_less_iff_gr_or_eq)
  then show ?case
  proof cases
    case eq
    then show ?thesis
      by (subst scan_for.simps)
         (simp add: ReadMessage_Inr [OF u] strings_Compare_zero p records_of_def)
  next
    case gt
    with le have "key \<notin> set (map fst (records_of fs))" by auto
    then have "map_of (records_of fs) key = None"
      by (simp add: map_of_eq_None_iff)
    with gt show ?thesis
      by (subst scan_for.simps)
         (auto simp add: ReadMessage_Inr [OF u] strings_Compare_zero strings_Compare_pos p
            records_of_def)
  next
    case lt
    then have "kv_Key m \<noteq> key" "\<not> key < kv_Key m" by auto
    with IH show ?thesis
      by (subst scan_for.simps)
         (simp add: ReadMessage_Inr [OF u] strings_Compare_zero strings_Compare_pos p
            records_of_def)
  qed
qed

lemma ReadString_sorted_table:
  assumes "is_Seeker f" and "seek_err f = None" and "sorted (map fst (records_of (frames f)))"
  shows "fst (ReadString c (NewReader f) key) =
           (case map_of (records_of (frames f)) key of Some v \<Rightarrow> v | None \<Rightarrow> [], None)"
proof -
  let ?f0 = "f\<lparr>pos := 0, unread := map Inr (frames f)\<rparr>"
  have look: "indexLookup c (NewReader f) key = ((0, None), NewReader f)"
    by (simp add: indexLookup_def NewReader_def)
  have seek: "SeekTo (NewReader f) 0 = (None, (NewReader f)\<lparr>orig_in := ?f0\<rparr>)"
    using assms(1,2) by (simp add: SeekTo_def NewReader_def file_Seek_def pending_zero)
  have "fst (scan_for key ?f0) =
      (case map_of (records_of (frames f)) key of Some v \<Rightarrow> v | None \<Rightarrow> [], None)"
    using assms(3) by (intro scan_for_sorted) simp_all
  then show ?thesis
    by (simp add: ReadString_scan_for [OF look seek])
qed

subsection \<open>Structured lookup of an absent key\<close>

lemma ReadProto_ReadString:
  "fst (ReadString c r key) = (val, None)
   \<Longrightarrow> fst (ReadProto P c r key pb) = Unmarshal P val (Reset P pb)"
  by (cases "ReadString c r key") (auto simp: ReadProto_def)

text \<open>
  Claim C10. Let the index lookup and the seek succeed and the data stream then deliver
  intact records \<open>fs\<close>, none with the key. Then \<^verbatim>\<open>ReadString\<close> returns the empty
  value with no error, and \<^verbatim>\<open>ReadProto\<close> returns what \<^verbatim>\<open>proto.Unmarshal\<close> makes
  of the empty value on the reset message: with a decoder that accepts the empty
  encoding and leaves the reset message as it is, a nil error and the reset message. A
  second reader \<open>r'\<close> that finds the key with the empty value stored returns the very
  same from \<^verbatim>\<open>ReadProto\<close>.
\<close>

theorem ReadProto_absent_key:
  assumes "indexLookup c r key = ((off, None), r1)"
    and "SeekTo r1 off = (None, r2)"
    and "unread (orig_in r2) = map Inr fs"
    and "\<forall>x\<in>set fs. kv_Key (snd x) \<noteq> key"
    and "indexLookup c r' key = ((off', None), r1')"
    and "SeekTo r1' off' = (None, r2')"
    and "unread (orig_in r2') = map Inr pre @ Inr (n, \<lparr>kv_Key = key, kv_Value = []\<rparr>) # rest"
    and "\<forall>x\<in>set pre. kv_Key (snd x) < key"
  shows "fst (ReadString c r key) = ([], None)
       \<and> fst (ReadProto P c r key pb) = Unmarshal P [] (Reset P pb)
       \<and> fst (ReadProto P c r key pb) = fst (ReadProto P c r' key pb)
       \<and> (Unmarshal P [] (Reset P pb) = (None, Reset P pb)
            \<longrightarrow> fst (ReadProto P c r key pb) = (None, Reset P pb))"
proof -
  have absent: "fst (ReadString c r key) = ([], None)"
    using assms(3,4) by (simp add: ReadString_scan_for [OF assms(1,2)] scan_for_absent)
  have present: "fst (ReadString c r' key) = ([], None)"
    using scan_for_found [OF assms(7,8)] by (simp add: ReadString_scan_for [OF assms(5,6)])
  show ?thesis
    using absent ReadProto_ReadString [OF absent, of P pb] ReadProto_ReadString [OF present, of P pb]
    by simp
qed

text \<open>
  The key \<open>abc\<close> is absent from the table \<open>aaa\<close>, \<open>aab\<close>, \<open>mmm\<close> and present with
  the empty value in \<open>blank_table\<close>: \<^verbatim>\<open>ReadProto\<close> answers both with a nil error and
  the empty message.
\<close>

theorem ReadProto_absent_key_witness:
  "fst (ReadString test_codec (NewReader (table_of (abc_w3 test_codec))) ''abc'') = ([], None)
   \<and> fst (ReadProto raw_message test_codec (NewReader (table_of (abc_w3 test_codec))) ''abc'' ''old'')
       = (None, [])
   \<and> fst (ReadProto raw_message test_codec (NewReader blank_table) ''abc'' ''old'') = (None, [])"
proof -
  let ?r = "NewReader (table_of (abc_w3 test_codec))"
  let ?r' = "NewReader blank_table"
  let ?a = "(14, \<lparr>kv_Key = ''aaa'', kv_Value = ''foo''\<rparr>)"
  let ?b = "(14, \<lparr>kv_Key = ''aab'', kv_Value = ''bar''\<rparr>)"
  let ?m = "(14, \<lparr>kv_Key = ''mmm'', kv_Value = ''baz''\<rparr>)"
  have look: "indexLookup test_codec ?r ''abc'' = ((0, None), ?r)"
    by (simp add: NewReader_def indexLookup_def)
  have seek: "SeekTo ?r 0 = (None, ?r)"
    by (simp add: abc_table_eq NewReader_def SeekTo_def file_Seek_def)
  have u: "unread (orig_in ?r) = map Inr [?a, ?b, ?m]"
    by (simp add: abc_table_eq NewReader_def)
  have absent: "\<forall>x\<in>set [?a, ?b, ?m]. kv_Key (snd x) \<noteq> ''abc''" by simp
  have look': "indexLookup test_codec ?r' ''abc'' = ((0, None), ?r')"
    by (simp add: NewReader_def indexLookup_def)
  have seek': "SeekTo ?r' 0 = (None, ?r')"
    by (simp add: blank_table_eq NewReader_def SeekTo_def file_Seek_def)
  have u': "unread (orig_in ?r') = map Inr [?a] @ Inr (11, \<lparr>kv_Key = ''abc'', kv_Value = []\<rparr>) # []"
    by (simp add: blank_table_eq NewReader_def)
  have below: "\<forall>x\<in>set [?a]. kv_Key (snd x) < ''abc''" by simp
  have dec: "Unmarshal raw_message [] (Reset raw_message ''old'') = (None, Reset raw_message ''old'')"
    by (simp add: raw_message_def)
  have res: "Reset raw_message ''old'' = []"
    by (simp add: raw_message_def)
  note main = ReadProto_absent_key [OF look seek u absent look' seek' u' below, of raw_message "''old''"]
  from main have raw: "fst (ReadString test_codec ?r ''abc'') = ([], None)"
    by (rule conjunct1)
  from main dec res have gone: "fst (ReadProto raw_message test_codec ?r ''abc'' ''old'') = (None, [])"
    by simp
  from main have "fst (ReadProto raw_message test_codec ?r ''abc'' ''old'')
      = fst (ReadProto raw_message test_codec ?r' ''abc'' ''old'')"
    by (rule conjunct1 [OF conjunct2 [OF conjunct2]])
  with gone have blank: "fst (ReadProto raw_message test_codec ?r' ''abc'' ''old'') = (None, [])"
    by simp
  from raw gone blank show ?thesis by simp
qed

subsection \<open>Index lookup without an index\<close>








subsection \<open>Rewinding the index stream\<close>



subsection \<open>Floor search in the index\<close>

lemma cache_lookup_exact:
  "map_of es key = Some v \<Longrightarrow> cache_lookup key es ck cv = v"
  by (induction es arbitrary: ck cv) (auto simp: strings_Compare_pos strings_Compare_zero)

lemma finite_below: "finite (below key es ck)"
  by (simp add: below_def)

lemma cache_lookup_floor:
  "key \<notin> fst ` set es \<Longrightarrow>
   cache_lookup key es ck cv =
     (if below key es ck = {} then cv else the (map_of es (Max (below key es ck))))"
proof (induction es arbitrary: ck cv)
  case Nil
  then show ?case by (simp add: below_def)
next
  case (Cons e es)
  obtain k v where e: "e = (k, v)" by (cases e)
  from Cons.prems e have ne: "key \<noteq> k" and notin: "key \<notin> fst ` set es" by auto
  note IH = Cons.IH [OF notin]
  consider (take) "k < key" "ck < k" | (keep) "k < key" "\<not> ck < k" | (above) "\<not> k < key"
    by blast
  then have "cache_lookup key ((k, v) # es) ck cv =
     (if below key ((k, v) # es) ck = {} then cv
      else the (map_of ((k, v) # es) (Max (below key ((k, v) # es) ck))))"
  proof cases
    case take
    have step: "cache_lookup key ((k, v) # es) ck cv = cache_lookup key es k v"
      using take by (simp add: strings_Compare_pos)
    have ins: "below key ((k, v) # es) ck = insert k (below key es ck)"
      using take by (auto simp: below_def)
    show ?thesis
    proof (cases "below key es k = {}")
      case True
      have "\<forall>x \<in> below key es ck. x \<le> k"
        using True by (auto simp: below_def not_less)
      then have "Max (insert k (below key es ck)) = k"
        by (intro Max_eqI) (auto simp: finite_below)
      with True show ?thesis
        by (simp only: step IH ins) simp
    next
      case False
      let ?M = "Max (below key es k)"
      have M: "?M \<in> below key es k"
        using False by (intro Max_in) (auto simp: finite_below)
      then have kM: "k < ?M" by (simp add: below_def)
      have "Max (insert k (below key es ck)) = ?M"
      proof (rule Max_eqI)
        show "finite (insert k (below key es ck))" by (simp add: finite_below)
        show "?M \<in> insert k (below key es ck)"
          using M take by (auto simp: below_def)
        fix y assume "y \<in> insert k (below key es ck)"
        then consider "y = k" | "y \<in> below key es k" | "y \<in> below key es ck" "\<not> k < y"
          by (auto simp: below_def)
        then show "y \<le> ?M"
        proof cases
          case 1 with kM show ?thesis by simp
        next
          case 2 then show ?thesis by (intro Max_ge) (auto simp: finite_below)
        next
          case 3 with kM show ?thesis by simp
        qed
      qed
      moreover from kM have "?M \<noteq> k" by auto
      ultimately show ?thesis
        using False by (simp only: step IH ins) simp
    qed
  next
    case keep
    have step: "cache_lookup key ((k, v) # es) ck cv = cache_lookup key es ck cv"
      using keep by (simp add: strings_Compare_pos)
    have same: "below key ((k, v) # es) ck = below key es ck"
      using keep by (auto simp: below_def)
    have "Max (below key es ck) \<noteq> k" if "below key es ck \<noteq> {}"
    proof -
      have "Max (below key es ck) \<in> below key es ck"
        using that by (intro Max_in) (auto simp: finite_below)
      with keep show ?thesis by (auto simp: below_def)
    qed
    then show ?thesis
      by (simp only: step IH same) simp
  next
    case above
    have step: "cache_lookup key ((k, v) # es) ck cv = cache_lookup key es ck cv"
      using above ne by (simp add: strings_Compare_pos strings_Compare_zero)
    have same: "below key ((k, v) # es) ck = below key es ck"
      using above by (auto simp: below_def)
    have "Max (below key es ck) \<noteq> k" if "below key es ck \<noteq> {}"
    proof -
      have "Max (below key es ck) \<in> below key es ck"
        using that by (intro Max_in) (auto simp: finite_below)
      with above show ?thesis by (auto simp: below_def)
    qed
    then show ?thesis
      by (simp only: step IH same) simp
  qed
  then show ?case by (simp only: e)
qed

lemma cache_lookup_cases:
  "(map_of es key = Some v \<longrightarrow> cache_lookup key es [] 0 = v)
   \<and> (key \<notin> fst ` set es \<and> map_of es k = Some v \<and> k < key \<and> k \<noteq> []
        \<and> (\<forall>k'\<in>fst ` set es. k' < key \<longrightarrow> k' \<le> k) \<longrightarrow> cache_lookup key es [] 0 = v)
   \<and> (key \<notin> fst ` set es \<and> (\<forall>k'\<in>fst ` set es. k' < key \<longrightarrow> k' = [])
        \<longrightarrow> cache_lookup key es [] 0 = 0)"
proof (intro conjI impI)
  assume "map_of es key = Some v"
  then show "cache_lookup key es [] 0 = v" by (rule cache_lookup_exact)
next
  assume a: "key \<notin> fst ` set es \<and> map_of es k = Some v \<and> k < key \<and> k \<noteq> []
        \<and> (\<forall>k'\<in>fst ` set es. k' < key \<longrightarrow> k' \<le> k)"
  then have kin: "k \<in> fst ` set es"
    by (metis domI dom_map_of_conv_image_fst)
  from a have "[] < k" by (cases k) simp_all
  with a kin have mem: "k \<in> below key es []"
    by (simp add: below_def)
  have "Max (below key es []) = k"
  proof (rule Max_eqI)
    show "finite (below key es [])" by (rule finite_below)
    show "k \<in> below key es []" by (rule mem)
    fix y assume "y \<in> below key es []"
    with a show "y \<le> k" by (auto simp: below_def)
  qed
  with a mem show "cache_lookup key es [] 0 = v"
    by (auto simp: cache_lookup_floor)
next
  assume a: "key \<notin> fst ` set es \<and> (\<forall>k'\<in>fst ` set es. k' < key \<longrightarrow> k' = [])"
  then have "below key es [] = {}"
    by (auto simp: below_def)
  with a show "cache_lookup key es [] 0 = 0"
    by (simp add: cache_lookup_floor)
qed

lemma disk_lookup_intact:
  "unread f = map Inr fs \<Longrightarrow>
   fst (disk_lookup c key f off ck cv) = (cache_lookup key (entries_of fs) ck cv, None)"
proof (induction fs arbitrary: f off ck cv)
  case Nil
  then show ?case
    by (subst disk_lookup.simps) (simp add: ReadMessage_Nil entries_of_def)
next
  case (Cons p fs)
  obtain n ir where p: "p = (n, ir)" by (cases p)
  from Cons.prems p have u: "unread f = Inr (n, ir) # map Inr fs" by simp
  have IH: "fst (disk_lookup c key (f\<lparr>unread := map Inr fs, pos := pos f + int n\<rparr>) off' ck' cv')
      = (cache_lookup key (entries_of fs) ck' cv', None)" for off' ck' cv'
    by (intro Cons.IH) simp
  show ?case
    by (subst disk_lookup.simps) (simp add: ReadMessage_Inr [OF u] IH Let_def p entries_of_def)
qed

text \<open>
  What \<^verbatim>\<open>indexLookup\<close> computes, over the cache in any order of iteration or over an
  intact on-disk index read from its start: the offset of the first entry with the
  target key if there is one; else the offset of the entry with the largest key strictly
  below the target, provided that key is not empty; and 0 when no key other than the
  empty one is strictly below the target.
\<close>

lemma indexLookup_floor:
  assumes "es = (if cache_entry_index r then entry_index_cache r else entries_of fs)"
    and "cache_entry_index r \<or> (orig_in_idx r = Some f \<and> idx_offset r = 0 \<and> unread f = map Inr fs)"
  shows "(map_of es key = Some v \<longrightarrow> fst (indexLookup c r key) = (v, None))
   \<and> (key \<notin> fst ` set es \<and> map_of es k = Some v \<and> k < key \<and> k \<noteq> []
        \<and> (\<forall>k'\<in>fst ` set es. k' < key \<longrightarrow> k' \<le> k) \<longrightarrow> fst (indexLookup c r key) = (v, None))
   \<and> (key \<notin> fst ` set es \<and> (\<forall>k'\<in>fst ` set es. k' < key \<longrightarrow> k' = [])
        \<longrightarrow> fst (indexLookup c r key) = (0, None))"
proof -
  have "fst (indexLookup c r key) = (cache_lookup key es [] 0, None)"
  proof (cases "cache_entry_index r")
    case True
    with assms(1) show ?thesis by (simp add: indexLookup_def)
  next
    case False
    with assms(2) have "orig_in_idx r = Some f" "idx_offset r = 0" "unread f = map Inr fs"
      by auto
    with False assms(1) disk_lookup_intact [of f fs c key 0 "[]" 0] show ?thesis
      by (cases "disk_lookup c key f 0 [] 0") (simp add: indexLookup_def)
  qed
  with cache_lookup_cases [of es key v k] show ?thesis by simp
qed

text \<open>
  Claim C1, evaluated where it fails. The records \<open>("", x)\<close>, \<open>("", y)\<close> written with
  \<^verbatim>\<open>IndexType_EVERY_N\<close> and \<open>n = 2\<close> leave the index with the single entry of the
  empty key at offset 9, where the second record starts. The empty key is strictly less
  than the target \<open>a\<close>, so the floor search of the claim yields 9; \<^verbatim>\<open>indexLookup\<close>
  returns 0, from the cache and from the on-disk index alike.
\<close>

theorem indexLookup_empty_key:
  "index_entries blank_key_writer = [\<lparr>ir_Key = [], ir_Offset = 9\<rparr>]
   \<and> entry_index_cache (fst (NewReaderWithIdx test_codec None (table_of blank_key_writer)
                                (index_of blank_key_writer) True)) = [([], 9)]
   \<and> fst (indexLookup test_codec
            (fst (NewReaderWithIdx test_codec None (table_of blank_key_writer)
                    (index_of blank_key_writer) True)) ''a'') = (0, None)
   \<and> fst (indexLookup test_codec
            (fst (NewReaderWithIdx test_codec None (table_of blank_key_writer)
                    (index_of blank_key_writer) False)) ''a'') = (0, None)"
  by (simp add: blank_key_writer_def index_entries_def table_of_def index_of_def test_codec_def
       writer_defs reader_defs)

section \<open>The scenario with an index entry every second record\<close>

text \<open>
  Claim C9 as stated fails: the index entry the second write emits has the key \<open>aab\<close>
  and the offset 14, where the record of \<open>aab\<close> starts; the record of \<open>aaa\<close> starts at
  offset 0.
\<close>

theorem every_n_scenario_counterexample:
  "index_entries (abc_w2 test_codec) = [\<lparr>ir_Key = ''aab'', ir_Offset = 14\<rparr>]
   \<and> record_offset (frames (out (abc_w3 test_codec))) ''aaa'' = Some 0
   \<and> record_offset (frames (out (abc_w3 test_codec))) ''aab'' = Some 14
   \<and> map (\<lambda>e. Some (ir_Offset e) = record_offset (frames (out (abc_w3 test_codec))) ''aaa'')
          (index_entries (abc_w2 test_codec)) = [False]"
  by (simp add: abc_w3_def abc_w2_def abc_w1_def abc_w0_def index_entries_def test_codec_def
      writer_defs)

text \<open>
  Claim C9, amended. With a codec that marshals every message, on two in-memory files:
  the three writes succeed; the first emits no index entry; the second, on which the
  counter wraps to 0, emits one entry with the key \<open>aab\<close> and the write cursor before
  that write, which is the offset at which the record of \<open>aab\<close> starts; the third emits
  none; and the exact lookup of \<open>mmm\<close> returns \<open>baz\<close> with no error through an indexed
  reader without cache, through one with cache, and through a reader without index.
\<close>

theorem every_n_scenario:
  assumes "\<forall>m. kv_Marshal_err c m = None" and "\<forall>m. ir_Marshal_err c m = None"
  shows "fst (WriteString c (abc_w0 c) ''aaa'' ''foo'') = None
       \<and> fst (WriteString c (abc_w1 c) ''aab'' ''bar'') = None
       \<and> fst (WriteString c (abc_w2 c) ''mmm'' ''baz'') = None
       \<and> index_entries (abc_w1 c) = []
       \<and> index_entries (abc_w2 c) = [\<lparr>ir_Key = ''aab'', ir_Offset = index_offset (abc_w1 c)\<rparr>]
       \<and> index_entries (abc_w3 c) = index_entries (abc_w2 c)
       \<and> record_offset (frames (out (abc_w3 c))) ''aab'' = Some (index_offset (abc_w1 c))
       \<and> fst (ReadString c (fst (NewReaderWithIdx c None (table_of (abc_w3 c))
                                    (index_of (abc_w3 c)) False)) ''mmm'') = (''baz'', None)
       \<and> fst (ReadString c (fst (NewReaderWithIdx c None (table_of (abc_w3 c))
                                    (index_of (abc_w3 c)) True)) ''mmm'') = (''baz'', None)
       \<and> fst (ReadString c (NewReader (table_of (abc_w3 c))) ''mmm'') = (''baz'', None)"
  using assms
  by (simp add: abc_w3_def abc_w2_def abc_w1_def abc_w0_def index_entries_def table_of_def
       index_of_def writer_defs reader_defs)

theorem every_n_scenario_witness:
  "(\<forall>m. kv_Marshal_err test_codec m = None) \<and> (\<forall>m. ir_Marshal_err test_codec m = None)
   \<and> index_entries (abc_w1 test_codec) = []
   \<and> index_entries (abc_w2 test_codec)
       = [\<lparr>ir_Key = ''aab'', ir_Offset = index_offset (abc_w1 test_codec)\<rparr>]
   \<and> fst (ReadString test_codec
             (fst (NewReaderWithIdx test_codec None (table_of (abc_w3 test_codec))
                     (index_of (abc_w3 test_codec)) False)) ''mmm'') = (''baz'', None)"
  using every_n_scenario [OF test_codec_total] test_codec_total by simp

end
